theory Spec2Isabelle
  imports Main
begin

section \<open>The migration log reconciler of \<^verbatim>\<open>mysql.go\<close>\<close>

text \<open>
  The development embeds two functions of \<^verbatim>\<open>src/mysql.go\<close>: \<^verbatim>\<open>Schema\<close> (lines 123-210), which
  replays a stream of schema statements against the table \<^verbatim>\<open>dbSchemaLog\<close>, and \<^verbatim>\<open>Update\<close>
  (lines 445-487). Byte slices and Go strings are \<open>string\<close> (lists of bytes). The counter
  \<^verbatim>\<open>schemaChanges\<close> is a Go \<^verbatim>\<open>int\<close>; it starts at zero and is only ever incremented, so it is a
  \<open>nat\<close> here (64-bit overflow is out of reach of any source stream).
\<close>

subsection \<open>The line reader seen from \<^verbatim>\<open>Schema\<close>\<close>

text \<open>
  \<^verbatim>\<open>b, o, e := schemaData.ReadLine()\<close> yields a fragment \<open>b\<close>, the flag \<open>o\<close> (\<^verbatim>\<open>isPrefix\<close>: the
  line continues in the next read) and an error \<open>e\<close>, which is \<^verbatim>\<open>nil\<close>, \<^verbatim>\<open>io.EOF\<close> or another
  read error. The source stream is the list of the results of the successive calls; once
  the list is used up every further call returns \<^verbatim>\<open>(nil, false, io.EOF)\<close>.
\<close>

datatype rerr = NoErr | EOF | ReadErr

type_synonym readline = "string \<times> bool \<times> rerr"

subsection \<open>The target database\<close>

text \<open>
  The handle \<^verbatim>\<open>type DB struct { db *sql.DB; schemaChanges int; schemaFail bool }\<close>. The
  pointer \<^verbatim>\<open>db\<close> stands for the target database, whose state is the record \<open>target\<close> below
  and is passed next to the handle.
\<close>

record DB =
  schemaChanges :: nat
  schemaFail :: bool

text \<open>
  Every call that \<^verbatim>\<open>Schema\<close> makes on \<^verbatim>\<open>database/sql\<close> is one round trip, recorded in the
  \<open>trace\<close> of the target.
\<close>

datatype dbop =
    OpBegin
  | OpCreateLog
  | OpCommit
  | OpRollback
  | OpSelect nat
  | OpInsert nat string
  | OpExec string
  | OpDelete nat

text \<open>
  The state of the target, as far as \<^verbatim>\<open>Schema\<close> can observe it:
  \<^item> \<open>dbSchemaLog\<close>: the committed rows of the table, \<^verbatim>\<open>id\<close> (primary key) to \<^verbatim>\<open>tx\<close>;
  \<^item> \<open>work\<close>: the rows as the open transaction sees them;
  \<^item> \<open>inTx\<close>: a transaction is open on the connection;
  \<^item> \<open>implicit\<close>: the statements that carry an implicit commit (the list in the comment
    at lines 213-266 of the source);
  \<^item> \<open>faults\<close>: the fault schedule, one entry for each round trip to come, \<open>True\<close> when
    that round trip returns an error (a failing statement, a lost connection, a
    cancelled context); an exhausted schedule means no further fault;
  \<^item> \<open>trace\<close>: the round trips made so far.

  The schema statements themselves are opaque. They are assumed not to touch the table
  \<^verbatim>\<open>dbSchemaLog\<close>; their effect on the rest of the schema is not modelled beyond the
  \<open>OpExec\<close> entry in the trace.
\<close>

record target =
  dbSchemaLog :: "nat \<rightharpoonup> string"
  work :: "nat \<rightharpoonup> string"
  inTx :: bool
  implicit :: "string \<Rightarrow> bool"
  faults :: "bool list"
  trace :: "dbop list"

definition nextFault :: "target \<Rightarrow> bool" where
  "nextFault t = (case faults t of [] \<Rightarrow> False | f # fs \<Rightarrow> f)"

definition roundtrip :: "dbop \<Rightarrow> target \<Rightarrow> bool \<times> target" where
  "roundtrip op t = (nextFault t, t\<lparr>faults := tl (faults t), trace := trace t @ [op]\<rparr>)"

text \<open>A write outside a transaction is committed at once (autocommit).\<close>

definition writeRows :: "(nat \<rightharpoonup> string) \<Rightarrow> target \<Rightarrow> target" where
  "writeRows w t = (if inTx t then t\<lparr>work := w\<rparr> else t\<lparr>work := w, dbSchemaLog := w\<rparr>)"

text \<open>
  The operations return the flag \<^verbatim>\<open>e != nil\<close> and the new state of the target.
  \<^verbatim>\<open>d.db.BeginTx(ctx, nil)\<close>:
\<close>

definition BeginTx :: "target \<Rightarrow> bool \<times> target" where
  "BeginTx t =
     (let (e, t) = roundtrip OpBegin t
      in if e then (True, t) else (False, t\<lparr>work := dbSchemaLog t, inTx := True\<rparr>))"

text \<open>\<^verbatim>\<open>tx.Exec(`CREATE TABLE IF NOT EXISTS dbSchemaLog ...`)\<close>: a statement with an implicit
  commit that leaves the rows of an existing table alone.\<close>

definition ExecCreate :: "target \<Rightarrow> bool \<times> target" where
  "ExecCreate t =
     (let (e, t) = roundtrip OpCreateLog t
      in (e, t\<lparr>dbSchemaLog := work t, inTx := False\<rparr>))"

text \<open>\<^verbatim>\<open>tx.ExecContext(ctx, "INSERT INTO dbSchemaLog (id, tx) VALUES (?, ?)", n, b)\<close>; the
  primary key refuses a second row with the same \<^verbatim>\<open>id\<close>.\<close>

definition ExecInsert :: "nat \<Rightarrow> string \<Rightarrow> target \<Rightarrow> bool \<times> target" where
  "ExecInsert n b t =
     (let (e, t) = roundtrip (OpInsert n b) t
      in if e then (True, t)
         else if work t n = None then (False, writeRows ((work t)(n \<mapsto> b)) t)
         else (True, t))"

text \<open>\<^verbatim>\<open>tx.ExecContext(ctx, string(b))\<close>: the schema statement itself. A statement with an
  implicit commit makes the pending rows durable and ends the transaction, whether it then
  succeeds or not (the source's comment at line 195).\<close>

definition ExecStmt :: "string \<Rightarrow> target \<Rightarrow> bool \<times> target" where
  "ExecStmt b t =
     (let (e, t) = roundtrip (OpExec b) t
      in (e, if implicit t b then t\<lparr>dbSchemaLog := work t, inTx := False\<rparr> else t))"

text \<open>\<^verbatim>\<open>tx.ExecContext(ctx, "DELETE FROM dbSchemaLog WHERE id=?", n)\<close>:\<close>

definition ExecDelete :: "nat \<Rightarrow> target \<Rightarrow> bool \<times> target" where
  "ExecDelete n t =
     (let (e, t) = roundtrip (OpDelete n) t
      in if e then (True, t) else (False, writeRows ((work t)(n := None)) t))"

text \<open>\<^verbatim>\<open>tx.Commit()\<close>: a failed commit loses the pending rows.\<close>

definition Commit :: "target \<Rightarrow> bool \<times> target" where
  "Commit t =
     (let (e, t) = roundtrip OpCommit t
      in if e then (True, t\<lparr>work := dbSchemaLog t, inTx := False\<rparr>)
         else (False, t\<lparr>dbSchemaLog := work t, inTx := False\<rparr>))"

text \<open>\<^verbatim>\<open>tx.Rollback()\<close>: its result is never read by \<^verbatim>\<open>Schema\<close>, and the pending rows are gone
  whether it succeeds or not.\<close>

definition Rollback :: "target \<Rightarrow> target" where
  "Rollback t = t\<lparr>work := dbSchemaLog t, inTx := False, trace := trace t @ [OpRollback]\<rparr>"

text \<open>
  \<^verbatim>\<open>d.db.QueryRowContext(ctx, "SELECT tx FROM dbSchemaLog WHERE id=?", n).Scan(&currentTx)\<close>
  runs outside any transaction and reads the committed rows. \<^verbatim>\<open>Row.Scan\<close> assigns to its
  destination only when a row is delivered: with \<^verbatim>\<open>sql.ErrNoRows\<close> or any other error the
  destination keeps the value it had.
\<close>

datatype scan = Found string | ErrNoRows | ScanErr

definition QueryRow :: "nat \<Rightarrow> target \<Rightarrow> scan \<times> target" where
  "QueryRow n t =
     (let (e, t) = roundtrip (OpSelect n) t
      in if e then (ScanErr, t)
         else (case dbSchemaLog t n of None \<Rightarrow> (ErrNoRows, t) | Some v \<Rightarrow> (Found v, t)))"

subsection \<open>\<^verbatim>\<open>Schema\<close>\<close>

text \<open>The errors \<^verbatim>\<open>Schema\<close> returns, one constructor for each \<^verbatim>\<open>fmt.Errorf\<close> of the source,
  carrying the values its message prints (the text of the underlying error apart).\<close>

datatype error =
    BeginTxError
  | CreateLogError
  | CommitLogError
  | ReadError
  | MismatchError nat string string
  | InsertError nat
  | ApplyError nat string
  | CommitError nat string

text \<open>
  Lines 179-206: the statement \<open>b\<close> is new at sequence \<open>n\<close>.
  \<^verbatim>\<open>
    tx, e = d.db.BeginTx(ctx, nil)
    if e != nil { return fmt.Errorf("unable to start a new transaction: %v", e) }
    _, e = tx.ExecContext(ctx, "INSERT INTO dbSchemaLog (id, tx) VALUES (?, ?)", d.schemaChanges, string(b))
    if e != nil { tx.Rollback(); return fmt.Errorf("unable to insert dbSchemaLog row %v, ...) }
    _, e = tx.ExecContext(ctx, string(b))
    if e != nil {
      tx.ExecContext(ctx, "DELETE FROM dbSchemaLog WHERE id=?", d.schemaChanges)
      tx.Commit()
      return fmt.Errorf("unable to make schema change row %v: %v: %v", ...)
    }
    e = tx.Commit()
    if e != nil { tx.Rollback(); return fmt.Errorf("unable to commit schema change row ...) }
  \<close>
\<close>

definition applyStatement :: "nat \<Rightarrow> string \<Rightarrow> target \<Rightarrow> error option \<times> target" where
  "applyStatement n b t =
     (let (e, t) = BeginTx t in
      if e then (Some BeginTxError, t)
      else
        let (e, t) = ExecInsert n b t in
        if e then (Some (InsertError n), Rollback t)
        else
          let (e, t) = ExecStmt b t in
          if e then
            (let (e1, t) = ExecDelete n t;
                 (e2, t) = Commit t
             in (Some (ApplyError n b), t))
          else
            let (e, t) = Commit t in
            if e then (Some (CommitError n b), Rollback t)
            else (None, t))"

text \<open>
  Lines 168-206: one non-blank statement \<open>b\<close> at sequence \<open>n\<close>, with the variable
  \<^verbatim>\<open>currentTx\<close> as it stands. The result is the error returned (\<open>None\<close> when the loop goes
  on), the new value of \<^verbatim>\<open>currentTx\<close> and the target.
  \<^verbatim>\<open>
    e = d.db.QueryRowContext(ctx, "SELECT tx FROM dbSchemaLog WHERE id=?", d.schemaChanges).Scan(&currentTx)
    if currentTx == string(b) { continue }
    if e != sql.ErrNoRows { return fmt.Errorf("dbSchemaLog does not match schema being applied at row %v. ...", d.schemaChanges, currentTx, string(b)) }
    ...
  \<close>
\<close>

definition processStatement ::
  "nat \<Rightarrow> string \<Rightarrow> string \<Rightarrow> target \<Rightarrow> error option \<times> string \<times> target" where
  "processStatement n b currentTx t =
     (let (r, t) = QueryRow n t;
          currentTx = (case r of Found v \<Rightarrow> v | ErrNoRows \<Rightarrow> currentTx | ScanErr \<Rightarrow> currentTx)
      in if currentTx = b then (None, currentTx, t)
         else if r \<noteq> ErrNoRows then (Some (MismatchError n currentTx b), currentTx, t)
         else
           let (e, t) = applyStatement n b t in (e, currentTx, t))"

text \<open>
  The loop of lines 144-208, over the results of \<^verbatim>\<open>ReadLine\<close> still to come, with the
  variables \<^verbatim>\<open>data\<close> and \<^verbatim>\<open>currentTx\<close>, the handle and the target. The flag \<^verbatim>\<open>o\<close> of the
  source is \<open>isPrefix\<close> here.
  \<^verbatim>\<open>
    for {
      b, o, e := schemaData.ReadLine()
      if o { data = append(data, b...); continue }
      if len(data) > 0 { b = append(data, b...); data = []byte{} }
      if e == io.EOF { return nil }
      if e != nil { return fmt.Errorf("error reading scheme lines, %v", e) }
      if len(b) == 0 { continue }
      d.schemaChanges++
      ...
    }
  \<close>
\<close>

fun loop ::
  "readline list \<Rightarrow> string \<Rightarrow> string \<Rightarrow> DB \<Rightarrow> target \<Rightarrow> error option \<times> DB \<times> target" where
  "loop [] data currentTx d t = (None, d, t)"
| "loop ((b, isPrefix, e) # rest) data currentTx d t =
     (if isPrefix then loop rest (data @ b) currentTx d t
      else
        let b = (if length data > 0 then data @ b else b);
            data = (if length data > 0 then [] else data)
        in if e = EOF then (None, d, t)
           else if e \<noteq> NoErr then (Some ReadError, d, t)
           else if length b = 0 then loop rest data currentTx d t
           else
             let d = d\<lparr>schemaChanges := schemaChanges d + 1\<rparr>
             in (case processStatement (schemaChanges d) b currentTx t of
                   (None, currentTx, t) \<Rightarrow> loop rest data currentTx d t
                 | (Some err, currentTx, t) \<Rightarrow> (Some err, d, t)))"

text \<open>
  \<^verbatim>\<open>func (d *DB) Schema(ctx context.Context, schema io.Reader) error\<close>: the table is created
  in a transaction of its own (lines 129-141), then the loop runs with \<^verbatim>\<open>data\<close> and
  \<^verbatim>\<open>currentTx\<close> empty. The handle is returned with the error, since the method updates
  \<^verbatim>\<open>d.schemaChanges\<close> in place.
\<close>

definition Schema :: "DB \<Rightarrow> readline list \<Rightarrow> target \<Rightarrow> error option \<times> DB \<times> target" where
  "Schema d schema t =
     (let (e, t) = BeginTx t in
      if e then (Some BeginTxError, d, t)
      else
        let (e, t) = ExecCreate t in
        if e then (Some CreateLogError, d, t)
        else
          let (e, t) = Commit t in
          if e then (Some CommitLogError, d, t)
          else loop schema [] [] d t)"

text \<open>\<^verbatim>\<open>Connect\<close> returns a handle made by \<^verbatim>\<open>new(DB)\<close> (line 89): both counters are zero
  values.\<close>

definition Connect :: DB where
  "Connect = \<lparr>schemaChanges = 0, schemaFail = False\<rparr>"

subsection \<open>The two halves of the loop\<close>

text \<open>
  Lines 146-164 alone: the lines with which the loop reaches line 166, in order, and how
  the reading ends (\<open>None\<close> for the \<^verbatim>\<open>return nil\<close> of line 157 and for a stream that is used
  up, \<open>Some ReadError\<close> for line 160).
\<close>

fun reader :: "readline list \<Rightarrow> string \<Rightarrow> string list \<times> error option" where
  "reader [] data = ([], None)"
| "reader ((b, isPrefix, e) # rest) data =
     (if isPrefix then reader rest (data @ b)
      else
        let b = (if length data > 0 then data @ b else b);
            data = (if length data > 0 then [] else data)
        in if e = EOF then ([], None)
           else if e \<noteq> NoErr then ([], Some ReadError)
           else if length b = 0 then reader rest data
           else (let (ss, r) = reader rest data in (b # ss, r)))"

text \<open>
  The reconciler as the specification words it: every statement comes with the sequence
  number of its position, and the statements are processed in that order until one of
  them returns an error; \<open>rd\<close> is how the reading ended. The handle keeps the last
  sequence number reached.
\<close>

fun replay ::
  "(nat \<times> string) list \<Rightarrow> error option \<Rightarrow> string \<Rightarrow> DB \<Rightarrow> target \<Rightarrow> error option \<times> DB \<times> target" where
  "replay [] rd currentTx d t = (rd, d, t)"
| "replay ((n, b) # rest) rd currentTx d t =
     (case processStatement n b currentTx t of
        (None, currentTx, t) \<Rightarrow> replay rest rd currentTx (d\<lparr>schemaChanges := n\<rparr>) t
      | (Some err, currentTx, t) \<Rightarrow> (Some err, d\<lparr>schemaChanges := n\<rparr>, t))"

subsection \<open>\<^verbatim>\<open>Update\<close>\<close>

text \<open>
  The values of a \<^verbatim>\<open>map[string]interface{}\<close>: the nil interface, strings, integers and
  booleans. A Go map holds each key once and \<^verbatim>\<open>range\<close> visits its entries in an order of its
  own choosing, so the argument \<^verbatim>\<open>updates\<close> is the list of its entries in the order of the
  visit.
\<close>

datatype val = VNil | VString string | VInt int | VBool bool

text \<open>
  What a call of \<^verbatim>\<open>Update\<close> comes to: a run-time panic \<^verbatim>\<open>index out of range [i] with length n\<close>,
  the error of line 471 with the row number it prints, or the call \<^verbatim>\<open>d.db.Exec(query, vals...)\<close>
  of line 475 (what the database answers is not modelled).
\<close>

datatype updateResult =
    IndexOutOfRange nat nat
  | MissingID nat
  | ExecIssued string "val list"

text \<open>
  Lines 456-464, with the variables \<^verbatim>\<open>id\<close> (here \<open>idv\<close>), \<^verbatim>\<open>sql\<close>, \<^verbatim>\<open>vals\<close> and \<^verbatim>\<open>i\<close>:
  \<^verbatim>\<open>
    for k, v := range updates {
      if k == "id" { id = v } else { sql = sql + k + "=?,"; vals[i] = v; i++ }
    }
  \<close>
  An assignment \<^verbatim>\<open>vals[i] = v\<close> with \<open>i\<close> out of range panics.
\<close>

fun updateLoop ::
  "(string \<times> val) list \<Rightarrow> val \<Rightarrow> string \<Rightarrow> val list \<Rightarrow> nat
     \<Rightarrow> (nat \<times> nat) + (val \<times> string \<times> val list \<times> nat)" where
  "updateLoop [] idv sql vals i = Inr (idv, sql, vals, i)"
| "updateLoop ((k, v) # rest) idv sql vals i =
     (if k = ''id'' then updateLoop rest v sql vals i
      else if i < length vals then updateLoop rest idv (sql @ k @ ''=?,'') (vals[i := v]) (i + 1)
      else Inl (i, length vals))"

text \<open>\<^verbatim>\<open>strings.TrimSuffix\<close>:\<close>

definition TrimSuffix :: "string \<Rightarrow> string \<Rightarrow> string" where
  "TrimSuffix s suffix =
     (if length suffix \<le> length s \<and> drop (length s - length suffix) s = suffix
      then take (length s - length suffix) s else s)"

text \<open>
  Lines 445-475:
  \<^verbatim>\<open>
    var id interface{}
    i := 0
    sql := "UPDATE " + table + " SET "
    vals := make([]interface{}, len(updates))
    for ... 
    query := strings.TrimSuffix(sql, ",") + " WHERE id=?"
    vals[i] = id
    if id == "" { return 0, fmt.Errorf("Row [%v] is missing the ID, ...", i) }
    res, err := d.db.Exec(query, vals...)
  \<close>
  The comparison \<^verbatim>\<open>id == ""\<close> of an interface value with a string constant holds exactly when
  the value is a string and is empty.
\<close>

definition Update :: "(string \<times> val) list \<Rightarrow> string \<Rightarrow> updateResult" where
  "Update updates table =
     (case updateLoop updates VNil (''UPDATE '' @ table @ '' SET '')
             (replicate (length updates) VNil) 0 of
        Inl (i, n) \<Rightarrow> IndexOutOfRange i n
      | Inr (idv, sql, vals, i) \<Rightarrow>
          let query = TrimSuffix sql '','' @ '' WHERE id=?''
          in if i < length vals then
               let vals = vals[i := idv]
               in if idv = VString [] then MissingID i else ExecIssued query vals
             else IndexOutOfRange i (length vals))"

subsection \<open>Concrete targets and statements\<close>

text \<open>A target at rest: no transaction open, the rows \<open>rows\<close> committed, nothing traced.\<close>

definition atRest :: "(string \<Rightarrow> bool) \<Rightarrow> (nat \<rightharpoonup> string) \<Rightarrow> bool list \<Rightarrow> target" where
  "atRest imp rows fs =
     \<lparr>dbSchemaLog = rows, work = rows, inTx = False, implicit = imp, faults = fs, trace = []\<rparr>"

definition stmtX :: string where
  "stmtX = ''INSERT INTO t (v) VALUES (1)''"

definition stmtY :: string where
  "stmtY = ''ALTER TABLE t ADD w INT''"

text \<open>Of the two, only \<open>stmtY\<close> carries an implicit commit.\<close>

definition ddl :: "string \<Rightarrow> bool" where
  "ddl s = (s = stmtY)"

text \<open>
  The target left behind by a run over an empty log in which the second statement fails:
  the twelfth round trip, the execution of that statement, returns an error.
\<close>

definition afterFailure :: target where
  "afterFailure =
     snd (snd (Schema Connect [(stmtX, False, NoErr), (stmtX, False, NoErr)]
       (atRest ddl Map.empty
          [False, False, False, False, False, False, False, False, False, False, False, True])))"

text \<open>
  A source of two statements with a blank line between them, and the run over it through a
  new handle on an empty log without faults.
\<close>

definition twoStatements :: "readline list" where
  "twoStatements = [(stmtX, False, NoErr), ([], False, NoErr), (stmtY, False, NoErr)]"

definition firstRun :: "error option \<times> DB \<times> target" where
  "firstRun = Schema Connect twoStatements (atRest ddl Map.empty [])"

text \<open>The target once lines 129-141 have gone through without a fault.\<close>

definition created :: "target \<Rightarrow> target" where
  "created t = t\<lparr>work := dbSchemaLog t, inTx := False, faults := drop 3 (faults t),
                 trace := trace t @ [OpBegin, OpCreateLog, OpCommit]\<rparr>"

section \<open>Properties\<close>

lemmas run_defs = Schema_def processStatement_def applyStatement_def QueryRow_def BeginTx_def
  ExecCreate_def ExecInsert_def ExecStmt_def ExecDelete_def Commit_def Rollback_def roundtrip_def
  nextFault_def writeRows_def Connect_def atRest_def ddl_def stmtX_def stmtY_def Let_def

subsection \<open>The loop as reader and reconciler\<close>

text \<open>
  The loop of \<^verbatim>\<open>Schema\<close> hands the lines of \<open>reader\<close> to \<open>processStatement\<close> one after the
  other, the first under the number that follows the handle's counter.
\<close>

lemma loop_replay:
  "loop evs data currentTx d t
   = (let (ss, rd) = reader evs data
      in replay (List.enumerate (Suc (schemaChanges d)) ss) rd currentTx d t)"
proof (induction evs arbitrary: data currentTx d t)
  case Nil
  show ?case by simp
next
  case (Cons ev evs)
  obtain b isPrefix e where ev: "ev = (b, isPrefix, e)" by (cases ev)
  show ?case
  proof (cases "isPrefix \<or> e \<noteq> NoErr \<or> data @ b = []")
    case True
    then show ?thesis
      using Cons.IH ev by (cases "data = []") (auto simp: Let_def split: prod.splits)
  next
    case False
    then have np: "\<not> isPrefix" and e: "e = NoErr" and ne: "data @ b \<noteq> []" by auto
    let ?d = "d\<lparr>schemaChanges := Suc (schemaChanges d)\<rparr>"
    obtain r c t' where p: "processStatement (Suc (schemaChanges d)) (data @ b) currentTx t = (r, c, t')"
      by (cases "processStatement (Suc (schemaChanges d)) (data @ b) currentTx t") auto
    obtain ss rd where rd: "reader evs [] = (ss, rd)" by (cases "reader evs []")
    have L: "loop (ev # evs) data currentTx d t
             = (case r of None \<Rightarrow> loop evs [] c ?d t' | Some err \<Rightarrow> (Some err, ?d, t'))"
      using ev np e ne p by (cases "data = []") (auto simp: Let_def split: option.splits)
    have R: "reader (ev # evs) data = ((data @ b) # ss, rd)"
      using ev np e ne rd by (cases "data = []") (auto simp: Let_def)
    show ?thesis
      unfolding L R using Cons.IH [of "[]" c ?d t'] rd p
      by (simp add: Let_def split: option.splits)
  qed
qed

text \<open>Line 162 lets no blank line through.\<close>

lemma reader_nonblank: "[] \<notin> set (fst (reader evs data))"
proof (induction evs arbitrary: data)
  case Nil
  show ?case by simp
next
  case (Cons ev evs)
  obtain b isPrefix e where ev: "ev = (b, isPrefix, e)" by (cases ev)
  show ?case
    using Cons.IH [of "data @ b"] Cons.IH [of "[]"] ev
    by (cases "data = []") (auto simp: Let_def split: prod.splits)
qed

text \<open>The creation of the table (lines 129-141) and what it leaves to the loop.\<close>

lemma Schema_prelude:
  "Schema d src t =
     (if nextFault t then (Some BeginTxError, d, snd (BeginTx t))
      else if nextFault (snd (BeginTx t)) then (Some CreateLogError, d, snd (ExecCreate (snd (BeginTx t))))
      else if nextFault (snd (ExecCreate (snd (BeginTx t))))
        then (Some CommitLogError, d, snd (Commit (snd (ExecCreate (snd (BeginTx t))))))
      else loop src [] [] d (created t))"
proof -
  have "snd (Commit (snd (ExecCreate (snd (BeginTx t))))) = created t"
    if "\<not> nextFault t" "\<not> nextFault (snd (BeginTx t))"
      "\<not> nextFault (snd (ExecCreate (snd (BeginTx t))))"
    using that
    by (intro target.equality)
       (simp_all add: BeginTx_def ExecCreate_def Commit_def roundtrip_def created_def
          drop_Suc numeral_3_eq_3)
  then show ?thesis
    by (auto simp add: Schema_def Let_def split: prod.splits)
       (auto simp add: BeginTx_def ExecCreate_def Commit_def roundtrip_def split: if_splits)
qed

lemma Schema_healthy:
  "True \<notin> set (faults t) \<Longrightarrow> Schema d src t = loop src [] [] d (created t)"
  by (cases "faults t"; cases "tl (faults t)"; cases "tl (tl (faults t))")
     (auto simp add: Schema_prelude nextFault_def BeginTx_def ExecCreate_def roundtrip_def)

lemma Schema_None:
  "Schema d src t = (None, d', t') \<Longrightarrow> loop src [] [] d (created t) = (None, d', t')"
  by (simp add: Schema_prelude split: if_splits)

text \<open>One statement: applied as new (lines 179-206), or found in the log as it is.\<close>

lemma applyStatement_None:
  assumes "applyStatement n b t = (None, t')"
  shows "dbSchemaLog t' = (dbSchemaLog t)(n \<mapsto> b)"
  using assms
  by (auto simp add: applyStatement_def BeginTx_def ExecInsert_def ExecStmt_def Commit_def
      roundtrip_def writeRows_def Let_def split: if_splits prod.splits)

lemma processStatement_new:
  assumes "processStatement n b [] t = (None, c, t')" and "b \<noteq> []" and "dbSchemaLog t n = None"
  shows "c = [] \<and> dbSchemaLog t' = (dbSchemaLog t)(n \<mapsto> b)"
proof -
  let ?t = "t\<lparr>faults := tl (faults t), trace := trace t @ [OpSelect n]\<rparr>"
  from assms have "applyStatement n b ?t = (None, t')" and "c = []"
    by (auto simp add: processStatement_def QueryRow_def roundtrip_def Let_def
        split: if_splits prod.splits)
  with applyStatement_None [of n b ?t t'] show ?thesis by simp
qed

lemma processStatement_same:
  assumes "\<not> nextFault t" and "dbSchemaLog t n = Some b"
  shows "processStatement n b c t
         = (None, b, t\<lparr>faults := tl (faults t), trace := trace t @ [OpSelect n]\<rparr>)"
  using assms by (simp add: processStatement_def QueryRow_def roundtrip_def)

text \<open>
  A replay that starts with \<^verbatim>\<open>currentTx\<close> empty above the last row of the log and returns
  nil has inserted every statement under its number; a replay over a log that holds every
  statement under its number, on a target without faults, only looks the rows up.
\<close>

lemma replay_first_run:
  assumes "replay (List.enumerate (Suc c) ss) rd [] d t = (None, d', t')"
    and "[] \<notin> set ss"
    and "\<forall>k>c. dbSchemaLog t k = None"
    and "schemaChanges d = c"
  shows "rd = None \<and> schemaChanges d' = c + length ss
       \<and> (\<forall>i<length ss. dbSchemaLog t' (Suc (c + i)) = Some (ss ! i))
       \<and> (\<forall>k. k \<le> c \<longrightarrow> dbSchemaLog t' k = dbSchemaLog t k)"
  using assms
proof (induction ss arbitrary: c d t)
  case Nil
  then show ?case by simp
next
  case (Cons b ss)
  obtain r cur t1 where p: "processStatement (Suc c) b [] t = (r, cur, t1)"
    by (cases "processStatement (Suc c) b [] t") auto
  with Cons.prems(1) have r: "r = None"
    by (cases r) simp_all
  from Cons.prems have b: "b \<noteq> []" and row: "dbSchemaLog t (Suc c) = None"
    by auto
  from processStatement_new [OF p [unfolded r] b row]
  have cur: "cur = []" and log1: "dbSchemaLog t1 = (dbSchemaLog t)(Suc c \<mapsto> b)"
    by simp_all
  let ?d = "d\<lparr>schemaChanges := Suc c\<rparr>"
  from Cons.prems(1) p r cur
  have run: "replay (List.enumerate (Suc (Suc c)) ss) rd [] ?d t1 = (None, d', t')"
    by simp
  have "rd = None \<and> schemaChanges d' = Suc c + length ss
       \<and> (\<forall>i<length ss. dbSchemaLog t' (Suc (Suc c + i)) = Some (ss ! i))
       \<and> (\<forall>k. k \<le> Suc c \<longrightarrow> dbSchemaLog t' k = dbSchemaLog t1 k)"
    using Cons.prems(2,3) log1 by (intro Cons.IH [OF run]) auto
  then have rd: "rd = None" and cnt: "schemaChanges d' = Suc c + length ss"
    and new: "\<And>i. i < length ss \<Longrightarrow> dbSchemaLog t' (Suc (Suc c + i)) = Some (ss ! i)"
    and old: "\<And>k. k \<le> Suc c \<Longrightarrow> dbSchemaLog t' k = dbSchemaLog t1 k"
    by auto
  have "dbSchemaLog t' (Suc (c + i)) = Some ((b # ss) ! i)" if "i < length (b # ss)" for i
  proof (cases i)
    case 0
    with old [of "Suc c"] log1 show ?thesis by simp
  next
    case (Suc j)
    with that new [of j] show ?thesis by simp
  qed
  moreover have "dbSchemaLog t' k = dbSchemaLog t k" if "k \<le> c" for k
    using that old [of k] log1 by simp
  ultimately show ?case
    using rd cnt by simp
qed

lemma replay_second_run:
  assumes "\<forall>i<length ss. dbSchemaLog t (Suc (c + i)) = Some (ss ! i)"
    and "True \<notin> set (faults t)"
    and "schemaChanges d = c"
  shows "replay (List.enumerate (Suc c) ss) rd cur d t
         = (rd, d\<lparr>schemaChanges := c + length ss\<rparr>,
            t\<lparr>faults := drop (length ss) (faults t),
              trace := trace t @ map OpSelect [Suc c..<Suc c + length ss]\<rparr>)"
  using assms
proof (induction ss arbitrary: c cur d t)
  case Nil
  then show ?case by simp
next
  case (Cons b ss)
  let ?t = "t\<lparr>faults := tl (faults t), trace := trace t @ [OpSelect (Suc c)]\<rparr>"
  let ?d = "d\<lparr>schemaChanges := Suc c\<rparr>"
  from Cons.prems(2) have nf: "\<not> nextFault t"
    by (cases "faults t") (auto simp: nextFault_def)
  from Cons.prems(1) have row: "dbSchemaLog t (Suc c) = Some b"
    by auto
  have p: "processStatement (Suc c) b cur t = (None, b, ?t)"
    by (rule processStatement_same [OF nf row])
  have rows: "\<forall>i<length ss. dbSchemaLog ?t (Suc (Suc c + i)) = Some (ss ! i)"
    using Cons.prems(1) by auto
  have healthy: "True \<notin> set (faults ?t)"
    using Cons.prems(2) by (cases "faults t") auto
  have "replay (List.enumerate (Suc (Suc c)) ss) rd b ?d ?t
        = (rd, ?d\<lparr>schemaChanges := Suc c + length ss\<rparr>,
           ?t\<lparr>faults := drop (length ss) (faults ?t),
              trace := trace ?t @ map OpSelect [Suc (Suc c)..<Suc (Suc c) + length ss]\<rparr>)"
    by (rule Cons.IH [OF rows healthy]) simp
  moreover have "[Suc c..<Suc c + length (b # ss)]
                 = Suc c # [Suc (Suc c)..<Suc (Suc c) + length ss]"
    by (simp add: upt_conv_Cons del: upt_Suc)
  ultimately show ?case
    using p by (simp add: drop_Suc del: upt_Suc)
qed

text \<open>
  The compensation of lines 194-198: when the execution fails and the \<^verbatim>\<open>DELETE\<close> goes
  through, the log is as it was before the statement, whether the statement carries an
  implicit commit or not and whether the last commit succeeds or not.
\<close>

lemma applyStatement_compensates:
  assumes "faults t = False # False # True # False # fs"
    and "dbSchemaLog t n = None"
  shows "fst (applyStatement n b t) = Some (ApplyError n b)
       \<and> dbSchemaLog (snd (applyStatement n b t)) = dbSchemaLog t
       \<and> trace (snd (applyStatement n b t))
         = trace t @ [OpBegin, OpInsert n b, OpExec b, OpDelete n, OpCommit]"
  using assms
  by (auto simp add: applyStatement_def BeginTx_def ExecInsert_def ExecStmt_def ExecDelete_def
      Commit_def roundtrip_def nextFault_def writeRows_def Let_def fun_upd_idem
      split: list.splits)

subsection \<open>Runs in which \<^verbatim>\<open>currentTx\<close> is stale\<close>

text \<open>
  \<^verbatim>\<open>currentTx\<close> is declared once, before the loop (line 125), and line 171 compares it with
  the incoming statement before line 175 looks at the error of the lookup. When the lookup
  delivers no row, \<^verbatim>\<open>currentTx\<close> still holds the text of the last row that an earlier lookup
  of the same run delivered, and a statement equal to that text is skipped.
\<close>

text \<open>
  C1. \<^verbatim>\<open>Schema\<close> is to return nil only if every non-blank statement of the source is in the
  log with matching text. With the log \<open>1 \<mapsto> stmtX\<close> and the source \<open>stmtX, stmtX\<close> it returns
  nil although the log has no row for the second statement; and a source whose last line
  ends in partial reads followed by the end of the stream returns nil without that line
  ever being looked up.
\<close>

theorem Schema_nil_statement_absent:
  "fst (Schema Connect [(stmtX, False, NoErr), (stmtX, False, NoErr)]
          (atRest ddl [1 \<mapsto> stmtX] [])) = None
   \<and> dbSchemaLog (snd (snd (Schema Connect [(stmtX, False, NoErr), (stmtX, False, NoErr)]
          (atRest ddl [1 \<mapsto> stmtX] [])))) 2 = None
   \<and> fst (Schema Connect [(stmtY, True, NoErr), ([], False, EOF)] (atRest ddl Map.empty [])) = None
   \<and> dbSchemaLog (snd (snd (Schema Connect [(stmtY, True, NoErr), ([], False, EOF)]
          (atRest ddl Map.empty [])))) = Map.empty"
  by (simp add: run_defs)

text \<open>
  C2. After a run the sequence numbers in the log are to form a range \<open>1..K\<close> without gaps.
  With the log \<open>1 \<mapsto> stmtX\<close> and the source \<open>stmtX, stmtX, stmtY\<close> the run returns nil and leaves
  the rows 1 and 3: the second statement is skipped on the stale \<^verbatim>\<open>currentTx\<close>, the third is
  inserted.
\<close>

theorem Schema_leaves_gap:
  "fst (Schema Connect [(stmtX, False, NoErr), (stmtX, False, NoErr), (stmtY, False, NoErr)]
          (atRest ddl [1 \<mapsto> stmtX] [])) = None
   \<and> dom (dbSchemaLog (atRest ddl [1 \<mapsto> stmtX] [])) = {1}
   \<and> dom (dbSchemaLog (snd (snd (Schema Connect
          [(stmtX, False, NoErr), (stmtX, False, NoErr), (stmtY, False, NoErr)]
          (atRest ddl [1 \<mapsto> stmtX] []))))) = {1, 3}"
  by (simp add: run_defs insert_commute eval_nat_numeral)

text \<open>
  C3. A statement is to be skipped if and only if the lookup for its sequence returns a row
  with exactly its text. With the log \<open>1 \<mapsto> stmtX\<close> and the source \<open>stmtX, stmtX\<close> the whole run
  consists of the two lookups, so the second statement is skipped, while the lookup for
  sequence 2, made on the target as the first statement leaves it, returns
  \<^verbatim>\<open>sql.ErrNoRows\<close>.
\<close>

theorem skip_without_row:
  "Schema Connect [(stmtX, False, NoErr), (stmtX, False, NoErr)] (atRest ddl [1 \<mapsto> stmtX] [])
   = (None, \<lparr>schemaChanges = 2, schemaFail = False\<rparr>,
      (atRest ddl [1 \<mapsto> stmtX] [])
        \<lparr>trace := [OpBegin, OpCreateLog, OpCommit, OpSelect 1, OpSelect 2]\<rparr>)
   \<and> fst (QueryRow 2 (snd (snd (Schema Connect [(stmtX, False, NoErr)]
        (atRest ddl [1 \<mapsto> stmtX] []))))) = ErrNoRows"
  by (simp add: run_defs)

text \<open>
  C4. A lookup that fails with an error other than \<^verbatim>\<open>sql.ErrNoRows\<close> is to halt the run. With
  the log \<open>1 \<mapsto> stmtX\<close> and the source \<open>stmtX, stmtX\<close>, when the lookup for sequence 2 (the fifth
  round trip) fails, the statement is skipped and the run returns nil.
\<close>

theorem lookup_error_skipped:
  "fst (QueryRow 2 (atRest ddl [1 \<mapsto> stmtX] [True])) = ScanErr
   \<and> fst (processStatement 2 stmtX stmtX (atRest ddl [1 \<mapsto> stmtX] [True])) = None
   \<and> Schema Connect [(stmtX, False, NoErr), (stmtX, False, NoErr)]
        (atRest ddl [1 \<mapsto> stmtX] [False, False, False, False, True])
      = (None, \<lparr>schemaChanges = 2, schemaFail = False\<rparr>,
         (atRest ddl [1 \<mapsto> stmtX] [])
           \<lparr>trace := [OpBegin, OpCreateLog, OpCommit, OpSelect 1, OpSelect 2]\<rparr>)"
  by (simp add: run_defs)

text \<open>
  C5. After a failed execution the row is deleted, the deletion committed and the error
  returned, and the next run is to try the same sequence again as a new statement. With an
  empty log and the source \<open>stmtX, stmtX\<close>, the second execution failing, the first run does
  delete row 2 and returns the error for sequence 2; the next run, through a new handle,
  looks sequence 2 up, finds no row, skips the statement and returns nil.
\<close>

theorem apply_failure_not_retried:
  "fst (Schema Connect [(stmtX, False, NoErr), (stmtX, False, NoErr)]
     (atRest ddl Map.empty
        [False, False, False, False, False, False, False, False, False, False, False, True]))
     = Some (ApplyError 2 stmtX)
   \<and> trace afterFailure
      = [OpBegin, OpCreateLog, OpCommit,
         OpSelect 1, OpBegin, OpInsert 1 stmtX, OpExec stmtX, OpCommit,
         OpSelect 2, OpBegin, OpInsert 2 stmtX, OpExec stmtX, OpDelete 2, OpCommit]
   \<and> dbSchemaLog afterFailure 1 = Some stmtX
   \<and> dbSchemaLog afterFailure 2 = None
   \<and> fst (Schema Connect [(stmtX, False, NoErr), (stmtX, False, NoErr)] afterFailure) = None
   \<and> dbSchemaLog (snd (snd (Schema Connect [(stmtX, False, NoErr), (stmtX, False, NoErr)]
        afterFailure))) 2 = None
   \<and> trace (snd (snd (Schema Connect [(stmtX, False, NoErr), (stmtX, False, NoErr)]
        afterFailure)))
      = trace afterFailure @ [OpBegin, OpCreateLog, OpCommit, OpSelect 1, OpSelect 2]"
  by (simp add: run_defs afterFailure_def)

subsection \<open>Lines read in several fragments\<close>

text \<open>
  A line read in fragments is processed like the same line read at once, whatever error
  comes with its last fragment.
\<close>

lemma loop_fragment:
  "loop ((f, True, e') # (b, False, e) # rest) [] currentTx d t
   = loop ((f @ b, False, e) # rest) [] currentTx d t"
  by (cases "f = []") simp_all

text \<open>
  C8. Fragments reported as partial are to be put together into exactly one statement. When
  the stream ends right after a partial fragment (\<^verbatim>\<open>ReadLine\<close> then returns no bytes and
  \<^verbatim>\<open>io.EOF\<close>: a last line without newline that fills the reader's buffer exactly), line 153
  puts the line together and line 157 returns nil before it is processed: the run makes no
  round trip beyond the creation of the table.
\<close>

theorem final_fragments_dropped:
  "Schema Connect [(frag, True, NoErr), ([], False, EOF)] (atRest imp rows [])
   = (None, Connect, (atRest imp rows [])\<lparr>trace := [OpBegin, OpCreateLog, OpCommit]\<rparr>)"
  by (simp add: run_defs)

subsection \<open>Divergence\<close>

text \<open>
  C7. When the lookup delivers the row stored at the sequence and its text differs from the
  incoming statement (the assembled line \<open>data @ b\<close>), the loop returns at once the error
  that carries the sequence number, the stored text and the incoming text: the rest of
  the stream is not read (the result does not depend on \<open>rest\<close>), the only round trip is
  the lookup, and the log table is as it was.
\<close>

theorem divergence_halts:
  assumes "\<not> nextFault t"
    and "dbSchemaLog t (Suc (schemaChanges d)) = Some stored"
    and "stored \<noteq> data @ b"
    and "data @ b \<noteq> []"
  shows "loop ((b, False, NoErr) # rest) data currentTx d t
         = (Some (MismatchError (Suc (schemaChanges d)) stored (data @ b)),
            d\<lparr>schemaChanges := Suc (schemaChanges d)\<rparr>,
            t\<lparr>faults := tl (faults t), trace := trace t @ [OpSelect (Suc (schemaChanges d))]\<rparr>)
       \<and> dbSchemaLog (snd (snd (loop ((b, False, NoErr) # rest) data currentTx d t)))
         = dbSchemaLog t"
  using assms
  by (cases "data = []") (simp_all add: processStatement_def QueryRow_def roundtrip_def Let_def)

text \<open>The example of the specification: the log holds \<open>CREATE TABLE a\<close> at sequence 1 and
  the source begins with \<open>CREATE TABLE b\<close>.\<close>

theorem divergence_halts_witness:
  "\<not> nextFault (atRest ddl [1 \<mapsto> ''CREATE TABLE a''] [])
   \<and> dbSchemaLog (atRest ddl [1 \<mapsto> ''CREATE TABLE a''] []) (Suc (schemaChanges Connect))
       = Some ''CREATE TABLE a''
   \<and> ''CREATE TABLE a'' \<noteq> [] @ ''CREATE TABLE b''
   \<and> loop [(''CREATE TABLE b'', False, NoErr), (''CREATE TABLE c'', False, NoErr)] [] [] Connect
        (atRest ddl [1 \<mapsto> ''CREATE TABLE a''] [])
      = (Some (MismatchError 1 ''CREATE TABLE a'' ''CREATE TABLE b''),
         \<lparr>schemaChanges = 1, schemaFail = False\<rparr>,
         (atRest ddl [1 \<mapsto> ''CREATE TABLE a''] [])\<lparr>trace := [OpSelect 1]\<rparr>)
   \<and> Schema Connect [(''CREATE TABLE b'', False, NoErr), (''CREATE TABLE c'', False, NoErr)]
        (atRest ddl [1 \<mapsto> ''CREATE TABLE a''] [])
      = (Some (MismatchError 1 ''CREATE TABLE a'' ''CREATE TABLE b''),
         \<lparr>schemaChanges = 1, schemaFail = False\<rparr>,
         (atRest ddl [1 \<mapsto> ''CREATE TABLE a''] [])
           \<lparr>trace := [OpBegin, OpCreateLog, OpCommit, OpSelect 1]\<rparr>)"
  using divergence_halts [of "atRest ddl [1 \<mapsto> ''CREATE TABLE a''] []" Connect
      "''CREATE TABLE a''" "[]" "''CREATE TABLE b''" "[(''CREATE TABLE c'', False, NoErr)]" "[]"]
  by (simp add: run_defs)

subsection \<open>Blank lines and sequence numbers\<close>

text \<open>
  C9. A blank line changes neither the handle nor the target: it takes no sequence number
  and makes no round trip. The loop is the replay of the non-blank lines, each under the
  number of its position counted from the handle's counter; the numbers are fixed by
  \<open>enumerate\<close> before the log is read at all.
\<close>

theorem blank_and_position:
  "loop (([], False, NoErr) # rest) [] currentTx d t = loop rest [] currentTx d t
   \<and> reader (([], False, NoErr) # rest) [] = reader rest []
   \<and> loop evs data currentTx d t
     = (let (ss, rd) = reader evs data
        in replay (List.enumerate (Suc (schemaChanges d)) ss) rd currentTx d t)"
  using loop_replay [of evs data currentTx d t] by simp

text \<open>The example of the specification: \<open>CREATE TABLE a\<close>, a blank line, \<open>CREATE TABLE b\<close>.\<close>

theorem blank_and_position_witness:
  "reader [(''CREATE TABLE a'', False, NoErr), ([], False, NoErr), (''CREATE TABLE b'', False, NoErr)] []
     = ([''CREATE TABLE a'', ''CREATE TABLE b''], None)
   \<and> List.enumerate (Suc (schemaChanges Connect)) [''CREATE TABLE a'', ''CREATE TABLE b'']
     = [(1, ''CREATE TABLE a''), (2, ''CREATE TABLE b'')]
   \<and> loop [(''CREATE TABLE a'', False, NoErr), ([], False, NoErr), (''CREATE TABLE b'', False, NoErr)]
        [] [] Connect (atRest ddl Map.empty [])
     = replay [(1, ''CREATE TABLE a''), (2, ''CREATE TABLE b'')] None [] Connect
         (atRest ddl Map.empty [])
   \<and> trace (snd (snd (loop
        [(''CREATE TABLE a'', False, NoErr), ([], False, NoErr), (''CREATE TABLE b'', False, NoErr)]
        [] [] Connect (atRest ddl Map.empty []))))
     = [OpSelect 1, OpBegin, OpInsert 1 ''CREATE TABLE a'', OpExec ''CREATE TABLE a'', OpCommit,
        OpSelect 2, OpBegin, OpInsert 2 ''CREATE TABLE b'', OpExec ''CREATE TABLE b'', OpCommit]"
  using blank_and_position [of "[]" "[]" Connect "atRest ddl Map.empty []"
      "[(''CREATE TABLE a'', False, NoErr), ([], False, NoErr), (''CREATE TABLE b'', False, NoErr)]" "[]"]
  by (simp add: run_defs numeral_2_eq_2)

subsection \<open>Two runs\<close>

text \<open>
  C6, as stated, fails: the counter \<^verbatim>\<open>schemaChanges\<close> is a field of the handle and \<^verbatim>\<open>Schema\<close> never resets it. A
  second run through the handle of the first run goes on counting where the first one
  stopped: over \<open>twoStatements\<close> it looks up the sequences 3 and 4, finds no rows, and applies
  and logs both statements a second time.
\<close>

theorem same_handle_second_run:
  "fst firstRun = None
   \<and> schemaChanges (fst (snd firstRun)) = 2
   \<and> dom (dbSchemaLog (snd (snd firstRun))) = {1, 2}
   \<and> fst (Schema (fst (snd firstRun)) twoStatements (snd (snd firstRun))) = None
   \<and> schemaChanges (fst (snd (Schema (fst (snd firstRun)) twoStatements (snd (snd firstRun))))) = 4
   \<and> dom (dbSchemaLog (snd (snd (Schema (fst (snd firstRun)) twoStatements (snd (snd firstRun))))))
       = {1, 2, 3, 4}
   \<and> dbSchemaLog (snd (snd (Schema (fst (snd firstRun)) twoStatements (snd (snd firstRun)))))
       \<noteq> dbSchemaLog (snd (snd firstRun))"
proof -
  have "dbSchemaLog (snd (snd firstRun)) 3 = None"
    by (simp add: run_defs firstRun_def twoStatements_def)
  moreover have "dbSchemaLog (snd (snd (Schema (fst (snd firstRun)) twoStatements
      (snd (snd firstRun))))) 3 = Some stmtX"
    by (simp add: run_defs firstRun_def twoStatements_def)
  ultimately have "dbSchemaLog (snd (snd (Schema (fst (snd firstRun)) twoStatements
      (snd (snd firstRun))))) \<noteq> dbSchemaLog (snd (snd firstRun))"
    by (metis option.distinct(1))
  moreover have "fst firstRun = None"
    and "schemaChanges (fst (snd firstRun)) = 2"
    and "dom (dbSchemaLog (snd (snd firstRun))) = {1, 2}"
    and "fst (Schema (fst (snd firstRun)) twoStatements (snd (snd firstRun))) = None"
    and "schemaChanges (fst (snd (Schema (fst (snd firstRun)) twoStatements
           (snd (snd firstRun))))) = 4"
    and "dom (dbSchemaLog (snd (snd (Schema (fst (snd firstRun)) twoStatements
           (snd (snd firstRun)))))) = {1, 2, 3, 4}"
    by (simp_all add: run_defs firstRun_def twoStatements_def insert_commute eval_nat_numeral)
  ultimately show ?thesis
    by simp
qed

text \<open>
  C6, amended. When each of the two runs goes through a handle whose counter is zero, the
  first run starts from an empty log and returns nil, and the second run meets no fault,
  then the second run returns nil as well, its round trips after the creation of the table
  are the lookups of the sequences \<open>1..K\<close> and nothing else, and the log is unchanged. The
  handle of the first run is left with its counter at \<open>K\<close>, the number of non-blank lines.
\<close>

theorem Schema_twice_fresh_handles:
  assumes "schemaChanges d = 0" and "schemaChanges d' = 0"
    and "dbSchemaLog t = Map.empty"
    and "Schema d src t = (None, d1, t1)"
    and "True \<notin> set (faults t1)"
  shows "Schema d' src t1
         = (None, d'\<lparr>schemaChanges := schemaChanges d1\<rparr>,
            (created t1)\<lparr>faults := drop (schemaChanges d1) (faults (created t1)),
               trace := trace (created t1) @ map OpSelect [1..<Suc (schemaChanges d1)]\<rparr>)
       \<and> dbSchemaLog (snd (snd (Schema d' src t1))) = dbSchemaLog t1
       \<and> schemaChanges d1 = length (fst (reader src []))"
proof -
  obtain ss rd where rd: "reader src [] = (ss, rd)"
    by (cases "reader src []")
  have nb: "[] \<notin> set ss"
    using reader_nonblank [of src "[]"] rd by simp
  from Schema_None [OF assms(4)] rd assms(1)
  have first: "replay (List.enumerate (Suc 0) ss) rd [] d (created t) = (None, d1, t1)"
    by (simp add: loop_replay)
  have empty: "\<forall>k>0. dbSchemaLog (created t) k = None"
    using assms(3) by (simp add: created_def)
  from replay_first_run [OF first nb empty assms(1)]
  have rdN: "rd = None" and cnt: "schemaChanges d1 = length ss"
    and rows: "\<forall>i<length ss. dbSchemaLog t1 (Suc (0 + i)) = Some (ss ! i)"
    by simp_all
  have rows': "\<forall>i<length ss. dbSchemaLog (created t1) (Suc (0 + i)) = Some (ss ! i)"
    using rows by (simp add: created_def)
  have healthy: "True \<notin> set (faults (created t1))"
    using assms(5) by (auto simp: created_def dest: in_set_dropD)
  have "Schema d' src t1 = loop src [] [] d' (created t1)"
    by (rule Schema_healthy [OF assms(5)])
  also have "\<dots> = replay (List.enumerate (Suc 0) ss) rd [] d' (created t1)"
    using rd assms(2) by (simp add: loop_replay)
  also have "\<dots> = (rd, d'\<lparr>schemaChanges := 0 + length ss\<rparr>,
            (created t1)\<lparr>faults := drop (length ss) (faults (created t1)),
               trace := trace (created t1) @ map OpSelect [Suc 0..<Suc 0 + length ss]\<rparr>)"
    by (rule replay_second_run [OF rows' healthy assms(2)])
  finally have second: "Schema d' src t1
         = (None, d'\<lparr>schemaChanges := schemaChanges d1\<rparr>,
            (created t1)\<lparr>faults := drop (schemaChanges d1) (faults (created t1)),
               trace := trace (created t1) @ map OpSelect [1..<Suc (schemaChanges d1)]\<rparr>)"
    using rdN cnt by simp
  moreover from second have "dbSchemaLog (snd (snd (Schema d' src t1))) = dbSchemaLog t1"
    by (simp add: created_def)
  ultimately show ?thesis
    using cnt rd by simp
qed

theorem Schema_twice_fresh_handles_witness:
  "schemaChanges Connect = 0
   \<and> dbSchemaLog (atRest ddl Map.empty []) = Map.empty
   \<and> Schema Connect twoStatements (atRest ddl Map.empty [])
       = (None, fst (snd firstRun), snd (snd firstRun))
   \<and> True \<notin> set (faults (snd (snd firstRun)))
   \<and> schemaChanges (fst (snd firstRun)) = 2
   \<and> fst (Schema Connect twoStatements (snd (snd firstRun))) = None
   \<and> dbSchemaLog (snd (snd (Schema Connect twoStatements (snd (snd firstRun)))))
       = dbSchemaLog (snd (snd firstRun))
   \<and> trace (snd (snd (Schema Connect twoStatements (snd (snd firstRun)))))
       = trace (snd (snd firstRun)) @ [OpBegin, OpCreateLog, OpCommit, OpSelect 1, OpSelect 2]"
  using Schema_twice_fresh_handles [of Connect Connect "atRest ddl Map.empty []" twoStatements
      "fst (snd firstRun)" "snd (snd firstRun)"]
  by (simp add: run_defs firstRun_def twoStatements_def created_def)

subsection \<open>\<^verbatim>\<open>Update\<close> without an id\<close>

lemma updateLoop_no_id:
  "''id'' \<notin> fst ` set kvs \<Longrightarrow> i + length kvs \<le> length vals \<Longrightarrow>
   \<exists>sql' vals'. updateLoop kvs idv sql vals i = Inr (idv, sql', vals', i + length kvs)
      \<and> length vals' = length vals"
proof (induction kvs arbitrary: sql vals i)
  case Nil
  then show ?case by simp
next
  case (Cons kv kvs)
  obtain k v where kv: "kv = (k, v)" by (cases kv)
  from Cons.prems kv have k: "k \<noteq> ''id''" and rest: "''id'' \<notin> fst ` set kvs"
    and i: "i < length vals" and le: "Suc i + length kvs \<le> length (vals[i := v])"
    by auto
  from Cons.IH [OF rest le, of "sql @ k @ ''=?,''"] k i kv show ?case
    by auto
qed

lemma updateLoop_distinct:
  "distinct (map fst kvs) \<Longrightarrow> i + length kvs \<le> Suc (length vals) \<Longrightarrow>
   map_of kvs ''id'' = Some w \<Longrightarrow>
   \<exists>sql' vals'. updateLoop kvs idv sql vals i = Inr (w, sql', vals', i + length kvs - 1)
      \<and> length vals' = length vals"
proof (induction kvs arbitrary: idv sql vals i)
  case Nil
  then show ?case by simp
next
  case (Cons kv kvs)
  obtain k v where kv: "kv = (k, v)" by (cases kv)
  show ?case
  proof (cases "k = ''id''")
    case True
    with Cons.prems kv have w: "w = v" and rest: "''id'' \<notin> fst ` set kvs"
      and le: "i + length kvs \<le> length vals"
      by auto
    from updateLoop_no_id [OF rest le, of v sql] True kv w show ?thesis
      by auto
  next
    case False
    with Cons.prems kv have d: "distinct (map fst kvs)" and m: "map_of kvs ''id'' = Some w"
      by auto
    from m have "kvs \<noteq> []" by auto
    then have pos: "0 < length kvs" by simp
    with Cons.prems(2) kv have i: "i < length vals"
      and le: "Suc i + length kvs \<le> Suc (length (vals[i := v]))"
      by (auto simp del: length_greater_0_conv)
    from Cons.IH [OF d le m, of idv "sql @ k @ ''=?,''"] False i kv pos show ?thesis
      by auto
  qed
qed

text \<open>
  C10. For a map without the key \<^verbatim>\<open>id\<close> the loop fills all \<^verbatim>\<open>len(updates)\<close> slots, so line 468
  writes at index \<^verbatim>\<open>len(updates)\<close> of a slice of that length and the call panics before the
  check of line 470 is reached. The error of line 471 is returned exactly when the map
  holds the empty string under \<^verbatim>\<open>id\<close>.
\<close>

theorem Update_without_id:
  assumes "distinct (map fst updates)"
  shows "(map_of updates ''id'' = None \<longrightarrow>
            Update updates table = IndexOutOfRange (length updates) (length updates))
       \<and> ((\<exists>i. Update updates table = MissingID i) \<longleftrightarrow>
            map_of updates ''id'' = Some (VString []))"
proof (cases "map_of updates ''id''")
  case None
  then have "''id'' \<notin> fst ` set updates"
    by (simp add: map_of_eq_None_iff)
  from updateLoop_no_id [OF this, of 0 "replicate (length updates) VNil" VNil
      "''UPDATE '' @ table @ '' SET ''"]
  obtain sql' vals' where
    "updateLoop updates VNil (''UPDATE '' @ table @ '' SET '') (replicate (length updates) VNil) 0
       = Inr (VNil, sql', vals', length updates)" and "length vals' = length updates"
    by auto
  then have "Update updates table = IndexOutOfRange (length updates) (length updates)"
    by (simp add: Update_def)
  with None show ?thesis by simp
next
  case (Some w)
  then have ne: "updates \<noteq> []" by auto
  from updateLoop_distinct [OF assms _ Some, of 0 "replicate (length updates) VNil" VNil
      "''UPDATE '' @ table @ '' SET ''"]
  obtain sql' vals' where
    "updateLoop updates VNil (''UPDATE '' @ table @ '' SET '') (replicate (length updates) VNil) 0
       = Inr (w, sql', vals', length updates - 1)" and "length vals' = length updates"
    by auto
  with ne have "Update updates table =
      (if w = VString [] then MissingID (length updates - 1)
       else ExecIssued (TrimSuffix sql' '','' @ '' WHERE id=?'') (vals'[length updates - 1 := w]))"
    by (simp add: Update_def Let_def)
  with Some show ?thesis by auto
qed

theorem Update_without_id_witness:
  "distinct (map fst [(''name'', VString ''n''), (''value'', VInt 3)])
   \<and> map_of [(''name'', VString ''n''), (''value'', VInt 3)] ''id'' = None
   \<and> Update [(''name'', VString ''n''), (''value'', VInt 3)] ''test'' = IndexOutOfRange 2 2
   \<and> map_of [(''name'', VString ''n''), (''id'', VString [])] ''id'' = Some (VString [])
   \<and> Update [(''name'', VString ''n''), (''id'', VString [])] ''test'' = MissingID 1
   \<and> Update [(''id'', VInt 1), (''name'', VString ''n'')] ''test''
        = ExecIssued ''UPDATE test SET name=? WHERE id=?'' [VString ''n'', VInt 1]"
  using Update_without_id [of "[(''name'', VString ''n''), (''value'', VInt 3)]" "''test''"]
  by (simp add: Update_def TrimSuffix_def)

end
